theory Spec2Isabelle
  imports Main "HOL-Library.Word" "HOL-Library.Signed_Division" "HOL-Library.Multiset"
begin

section \<open>Line of descent: lineage snapshots (line\_of\_descent.h)\<close>

text \<open>
  A lineage (\<open>lineage_type\<close>, a \<open>std::list\<close> of individual pointers) is a list of
  individuals of some type \<open>'a\<close>, ordered from ancestor to offspring. Two individuals
  are distinct objects even when their genomes agree, so the genome is read through a
  function \<open>repr :: 'a \<Rightarrow> 'g\<close>, as \<open>(*i)->repr()\<close> does.
\<close>

subsection \<open>uniq: remove redundant genomes, preserving the most recent\<close>



subsection \<open>runiq: remove redundant genomes, preserving the oldest\<close>



section \<open>Individuals, the population and the heap\<close>

text \<open>
  Individuals are held through shared pointers (\<open>individual_ptr_type\<close>): the population
  is a vector of pointers and every offspring holds pointers to its parents. A pointer
  is an address; the objects live in a heap. An individual (\<open>organism_lod\<close>) carries the
  liveness flag read by the scheduler and the parent set \<open>_lod_parents\<close>, a
  \<open>std::set\<close> of pointers, kept here as the list of its elements in the set's iteration
  order, so that \<open>*_lod_parents.begin()\<close> is the head of the list.
\<close>

type_synonym ptr = nat

text \<open>
  Modelled from the spec: the metadata macro \<open>LIBEA_MD_DECL\<close> and the operations
  \<open>exists<FIXATION_TIME>\<close>, \<open>put<FIXATION_TIME>\<close> and \<open>get<...>\<close> are declared
  outside this file. Following the spec's data model, \<open>fixation_time\<close> is an optional
  integer of the individual, unset at birth, and the scheduler's metadata are fields of
  the evolutionary algorithm.
\<close>

record individual =
  alive :: bool
  lod_parents :: "ptr list"
  fixation_time :: "int option"

text \<open>
  The evolutionary algorithm \<open>ea\<close>: its population, the heap with the list of the
  addresses allocated in it, the current update, the metadata read by the scheduler
  (both \<open>unsigned int\<close>) and the resource pool, whose internal state is of an arbitrary
  type \<open>'r\<close>.
\<close>

record 'r ea =
  population :: "ptr list"
  heap :: "ptr \<Rightarrow> individual"
  allocated :: "ptr list"
  current_update :: int
  time_slice :: "32 word"
  population_size :: "32 word"
  resources :: 'r

datatype fault = AssertionFailed | DivideByZero | DivideOverflow | IndexOutOfRange

definition has_parents :: "individual \<Rightarrow> bool" where
  "has_parents ind = (length (lod_parents ind) > 0)"

text \<open>\<open>lod_parent\<close> is only called under \<open>has_parents\<close>, so the head exists.\<close>

definition lod_parent :: "individual \<Rightarrow> ptr" where
  "lod_parent ind = hd (lod_parents ind)"

section \<open>Line of descent: lineage, MRCA and fixation (line\_of\_descent.h)\<close>

subsection \<open>lineage\<close>

text \<open>
  \<open>lineage(p)\<close> pushes \<open>p\<close>, then walks to the first parent while there is one, pushing
  each at the front. On a cyclic parent relation the loop does not return, which is the
  value \<open>None\<close>.
\<close>

partial_function (option) lineage_loop :: "'r ea \<Rightarrow> ptr \<Rightarrow> ptr list \<Rightarrow> ptr list option" where
  "lineage_loop e p lod =
     (if length (lod_parents (heap e p)) > 0
      then lineage_loop e (lod_parent (heap e p)) (lod_parent (heap e p) # lod)
      else Some lod)"

declare lineage_loop.simps [code]

definition lineage :: "'r ea \<Rightarrow> ptr \<Rightarrow> ptr list option" where
  "lineage e p = lineage_loop e p [p]"

subsection \<open>mrca\<close>

text \<open>
  \<open>use_count\<close> of a shared pointer is the number of shared pointers that manage the same
  object. While \<open>mrca\<close> runs these are: the entries of the population vector, the entries
  of the parent sets of the individuals in memory, and the local variables of \<open>mrca\<close>
  itself (\<open>offspring\<close>, \<open>parent\<close> and \<open>m\<close>, all three set when the counts are compared).
\<close>

definition use_count :: "'r ea \<Rightarrow> ptr list \<Rightarrow> ptr \<Rightarrow> nat" where
  "use_count e locals p =
     count_list (population e) p
     + length (filter (\<lambda>q. p \<in> set (lod_parents (heap e q))) (allocated e))
     + count_list locals p"

partial_function (option) mrca_loop :: "'r ea \<Rightarrow> ptr \<Rightarrow> ptr \<Rightarrow> ptr option" where
  "mrca_loop e offspring m =
     (if has_parents (heap e offspring)
      then (let parent = lod_parent (heap e offspring);
                locals = [offspring, parent, m];
                m' = (if use_count e locals parent < use_count e locals offspring
                      then offspring
                      else if use_count e locals parent > use_count e locals offspring
                      then parent
                      else m)
            in mrca_loop e parent m')
      else Some m)"

declare mrca_loop.simps [code]

definition mrca :: "'r ea \<Rightarrow> (fault + ptr) option" where
  "mrca e =
     (if length (population e) > 0
      then map_option Inr (mrca_loop e (hd (population e)) (hd (population e)))
      else Some (Inl AssertionFailed))"

definition mrca_lineage :: "'r ea \<Rightarrow> (fault + ptr list) option" where
  "mrca_lineage e =
     (case mrca e of
        None \<Rightarrow> None
      | Some (Inl f) \<Rightarrow> Some (Inl f)
      | Some (Inr m) \<Rightarrow> map_option Inr (lineage e m))"

text \<open>
  The share-count of a node, in the spec's words: the number of current population
  members whose lineage passes through the node. The most recent common ancestor is
  the deepest node whose share-count is the size of the population.
\<close>

definition share_count :: "'r ea \<Rightarrow> ptr \<Rightarrow> nat" where
  "share_count e x =
     length (filter (\<lambda>p. case lineage e p of None \<Rightarrow> False | Some l \<Rightarrow> x \<in> set l)
               (population e))"

subsection \<open>track\_fixation\_events\<close>

text \<open>
  The loop runs over the lineage from its last element (\<open>rbegin\<close>) to its first: an
  individual without a fixation time gets the current update, and the first individual
  that has one ends the loop.
\<close>

fun fixation_loop :: "int \<Rightarrow> ptr list \<Rightarrow> (ptr \<Rightarrow> individual) \<Rightarrow> (ptr \<Rightarrow> individual)" where
  "fixation_loop t [] h = h"
| "fixation_loop t (x # xs) h =
     (if fixation_time (h x) = None
      then fixation_loop t xs (h(x := (h x)\<lparr>fixation_time := Some t\<rparr>))
      else h)"

definition track_fixation_events :: "'r ea \<Rightarrow> (fault + 'r ea) option" where
  "track_fixation_events e =
     (case mrca_lineage e of
        None \<Rightarrow> None
      | Some (Inl f) \<Rightarrow> Some (Inl f)
      | Some (Inr lod) \<Rightarrow>
          Some (Inr (e\<lparr>heap := fixation_loop (current_update e) (rev lod) (heap e)\<rparr>)))"

text \<open>
  A chain as \<open>lineage\<close> builds it: every element but the last is the first parent of
  its successor.
\<close>

fun first_parent_chain :: "'r ea \<Rightarrow> ptr list \<Rightarrow> bool" where
  "first_parent_chain e (a # b # rest) =
     (has_parents (heap e b) \<and> lod_parent (heap e b) = a \<and> first_parent_chain e (b # rest))"
| "first_parent_chain e rest = True"

text \<open>
  Invariant I2 of the spec, the ancestry graph is acyclic: some rank (the time of birth,
  for instance) is smaller at every parent than at its offspring.
\<close>

definition acyclic_ancestry :: "'r ea \<Rightarrow> (ptr \<Rightarrow> nat) \<Rightarrow> bool" where
  "acyclic_ancestry e rank = (\<forall>x. \<forall>q \<in> set (lod_parents (heap e x)). rank q < rank x)"

section \<open>The weighted round-robin scheduler (schedulers.h)\<close>

subsection \<open>Machine arithmetic\<close>

text \<open>
  \<open>consumed\<close>, \<open>budget\<close> and \<open>ncycles_per_period\<close> are \<open>long\<close> (64 bits) and
  \<open>period\<close> and \<open>last_period\<close> are \<open>int\<close> (32 bits). They are integers here, with the
  wrap-around of a conversion to the signed type written out. The metadata are
  \<open>unsigned int\<close> and a quantum is a \<open>std::size_t\<close>: 32-bit and 64-bit words.
\<close>

definition wrap_long :: "int \<Rightarrow> int" where
  "wrap_long k = (k + 2 ^ 63) mod 2 ^ 64 - 2 ^ 63"

definition wrap_int :: "int \<Rightarrow> int" where
  "wrap_int k = (k + 2 ^ 31) mod 2 ^ 32 - 2 ^ 31"

subsection \<open>Priority accessors\<close>

text \<open>
  An accessor is called as \<open>_acc(*p, ea)\<close> and its result is cast to \<open>std::size_t\<close>; the
  accessors of the model return the quantum after the cast. \<open>fixed_priority\<close> returns
  1.0. The accessor \<open>priority\<close> reads a floating-point priority of the individual; it is
  covered by the theorems that hold for every accessor.
\<close>

definition fixed_priority :: "individual \<Rightarrow> 'r ea \<Rightarrow> 64 word" where
  "fixed_priority ind e = 1"

subsection \<open>The loop of one update\<close>

text \<open>
  The local variables of \<open>operator()\<close> during the loop, with the evolutionary
  algorithm (\<open>world\<close>) they act on; \<open>idx\<close> is the variable \<open>i\<close>. Two fields record
  what the loop called: \<open>updated\<close> lists the periods for which
  \<open>ea.resources().update(delta_t)\<close> was called, in the order of the calls, and
  \<open>nexecuted\<close> counts the calls of \<open>p->execute\<close>.
\<close>

record 'r wrr_state =
  world :: "'r ea"
  consumed :: int
  last_period :: int
  idx :: nat
  deadcount :: nat
  updated :: "int list"
  nexecuted :: nat

text \<open>
  One iteration. The parameters are what the loop takes from its surroundings:
  \<open>upd\<close> is the effect of \<open>update(delta_t)\<close> on the resource pool, \<open>acc\<close> the priority
  accessor, \<open>exec\<close> the effect of \<open>p->execute(n, p, ea)\<close> on the evolutionary algorithm
  (it may flip liveness flags and append offspring to the population), \<open>npp\<close> the constant
  \<open>ncycles_per_period\<close> and \<open>N\<close> the size of the population before the loop.
  The division is the truncating division of C++; a zero divisor, the overflowing
  quotient and an index beyond the population vector are undefined behaviour and end
  the update with a fault.
\<close>

definition wrr_body ::
  "('r \<Rightarrow> 'r) \<Rightarrow> (individual \<Rightarrow> 'r ea \<Rightarrow> 64 word) \<Rightarrow> (64 word \<Rightarrow> ptr \<Rightarrow> 'r ea \<Rightarrow> 'r ea)
     \<Rightarrow> int \<Rightarrow> nat \<Rightarrow> 'r wrr_state \<Rightarrow> fault + 'r wrr_state" where
  "wrr_body upd acc exec npp N s =
     (if npp = 0 then Inl DivideByZero
      else if consumed s = - (2 ^ 63) \<and> npp = - 1 then Inl DivideOverflow
      else
        let period = wrap_int (consumed s sdiv npp);
            s1 = (if period \<noteq> last_period s
                  then s\<lparr>world := (world s)\<lparr>resources := upd (resources (world s))\<rparr>,
                         last_period := period,
                         updated := updated s @ [period]\<rparr>
                  else s)
        in if idx s1 < length (population (world s1))
           then let p = population (world s1) ! idx s1
                in if alive (heap (world s1) p)
                   then let n = acc (heap (world s1) p) (world s1)
                        in Inr (s1\<lparr>world := exec n p (world s1),
                                   consumed := wrap_long (consumed s1 + uint n),
                                   nexecuted := nexecuted s1 + 1,
                                   idx := (idx s1 + 1) mod N\<rparr>)
                   else Inr (s1\<lparr>deadcount := deadcount s1 + 1,
                                 idx := (idx s1 + 1) mod N\<rparr>)
           else Inl IndexOutOfRange)"

text \<open>
  The loop \<open>while((consumed < budget) && (deadcount < N))\<close>. It need not end (an
  accessor may keep returning the quantum 0): not returning is the value \<open>None\<close>.
\<close>

partial_function (option) wrr_loop ::
  "('r \<Rightarrow> 'r) \<Rightarrow> (individual \<Rightarrow> 'r ea \<Rightarrow> 64 word) \<Rightarrow> (64 word \<Rightarrow> ptr \<Rightarrow> 'r ea \<Rightarrow> 'r ea)
     \<Rightarrow> int \<Rightarrow> int \<Rightarrow> nat \<Rightarrow> 'r wrr_state \<Rightarrow> (fault + 'r wrr_state) option" where
  "wrr_loop upd acc exec budget npp N s =
     (if consumed s < budget \<and> deadcount s < N
      then (case wrr_body upd acc exec npp N s of
              Inl f \<Rightarrow> Some (Inl f)
            | Inr s' \<Rightarrow> wrr_loop upd acc exec budget npp N s')
      else Some (Inr s))"

declare wrr_loop.simps [code]

subsection \<open>operator()\<close>

text \<open>
  \<open>budget\<close> is the product of two \<open>unsigned int\<close>, converted to \<open>long\<close>;
  \<open>eff_population_size\<close> is the minimum of the population's size, cast to
  \<open>unsigned int\<close>, and of the metadata \<open>POPULATION_SIZE\<close>.
\<close>

definition tick_budget :: "'r ea \<Rightarrow> int" where
  "tick_budget e =
     (let eff_population_size = min (of_nat (length (population e)) :: 32 word) (population_size e)
      in uint (time_slice e * eff_population_size))"

text \<open>
  The update up to the end of the while loop. \<open>shuffle\<close> is the permutation that
  \<open>std::random_shuffle\<close> applies. \<open>ncycles_per_period\<close> is the value of the
  floating-point expression \<open>budget * delta_t\<close> converted to \<open>long\<close>, with
  \<open>delta_t = 1.0 / resource_slice\<close>; floating-point arithmetic is not modelled and the
  value is a parameter.
\<close>

definition wrr_run ::
  "(ptr list \<Rightarrow> ptr list) \<Rightarrow> ('r \<Rightarrow> 'r) \<Rightarrow> (individual \<Rightarrow> 'r ea \<Rightarrow> 64 word)
     \<Rightarrow> (64 word \<Rightarrow> ptr \<Rightarrow> 'r ea \<Rightarrow> 'r ea) \<Rightarrow> int \<Rightarrow> 'r ea \<Rightarrow> (fault + 'r wrr_state) option" where
  "wrr_run shuffle upd acc exec ncycles_per_period e =
     (let e1 = e\<lparr>population := shuffle (population e)\<rparr>;
          budget = tick_budget e1;
          N = length (population e1)
      in wrr_loop upd acc exec budget ncycles_per_period N
           \<lparr>world = e1, consumed = 0, last_period = - 1, idx = 0, deadcount = 0,
            updated = [], nexecuted = 0\<rparr>)"

text \<open>
  The second loop builds \<open>next\<close> from the individuals that are alive, by index over the
  population as it is after the first loop; \<open>std::swap\<close> installs it.
\<close>

function next_loop :: "'r ea \<Rightarrow> nat \<Rightarrow> ptr list \<Rightarrow> ptr list" where
  "next_loop e i nxt =
     (if i < length (population e)
      then (let p = population e ! i
            in next_loop e (i + 1) (if alive (heap e p) then nxt @ [p] else nxt))
      else nxt)"
  by pat_completeness auto
termination
  by (relation "measure (\<lambda>(e, i, nxt). length (population e) - i)") auto

declare next_loop.simps [simp del]

definition weighted_round_robin ::
  "(ptr list \<Rightarrow> ptr list) \<Rightarrow> ('r \<Rightarrow> 'r) \<Rightarrow> (individual \<Rightarrow> 'r ea \<Rightarrow> 64 word)
     \<Rightarrow> (64 word \<Rightarrow> ptr \<Rightarrow> 'r ea \<Rightarrow> 'r ea) \<Rightarrow> int \<Rightarrow> 'r ea \<Rightarrow> (fault + 'r ea) option" where
  "weighted_round_robin shuffle upd acc exec ncycles_per_period e =
     (case wrr_run shuffle upd acc exec ncycles_per_period e of
        None \<Rightarrow> None
      | Some (Inl f) \<Rightarrow> Some (Inl f)
      | Some (Inr s) \<Rightarrow> Some (Inr ((world s)\<lparr>population := next_loop (world s) 0 []\<rparr>)))"

text \<open>
  \<open>std::random_shuffle\<close> permutes the population: the shuffled vector has the same
  elements as the original one, each as often.
\<close>

definition is_shuffle :: "(ptr list \<Rightarrow> ptr list) \<Rightarrow> bool" where
  "is_shuffle f = (\<forall>xs. mset (f xs) = mset xs)"

section \<open>Example populations\<close>

text \<open>
  A progenitor 0 with two offspring, 1 and 2; individual 1 has two offspring, 3 and 4.
  Individuals 0 and 1 are dead and have left the population, and stay in memory as
  parents.
\<close>

definition progenitor_ea :: "unit ea" where
  "progenitor_ea =
     \<lparr>population = [3, 4, 2],
      heap = (\<lambda>x. \<lparr>alive = (x = 2 \<or> x = 3 \<or> x = 4),
                    lod_parents = (if x = 1 \<or> x = 2 then [0] else if x = 3 \<or> x = 4 then [1] else []),
                    fixation_time = None\<rparr>),
      allocated = [0, 1, 2, 3, 4], current_update = 7,
      time_slice = 1, population_size = 10, resources = ()\<rparr>"

text \<open>Individual 2 has two parents, 0 and 1, which have none.\<close>

definition two_parents_ea :: "unit ea" where
  "two_parents_ea =
     \<lparr>population = [2],
      heap = (\<lambda>x. \<lparr>alive = (x = 2),
                    lod_parents = (if x = 2 then [0, 1] else []),
                    fixation_time = None\<rparr>),
      allocated = [0, 1, 2], current_update = 7,
      time_slice = 1, population_size = 10, resources = ()\<rparr>"

text \<open>
  A chain 0, 1, 2 with two offspring 3 and 4 of individual 2 in the population;
  individual 0 was fixed at update 3.
\<close>

definition fixation_ea :: "unit ea" where
  "fixation_ea =
     \<lparr>population = [3, 4],
      heap = (\<lambda>x. \<lparr>alive = (x = 3 \<or> x = 4),
                    lod_parents = (if x = 0 then [] else if x = 3 \<or> x = 4 then [2] else [x - 1]),
                    fixation_time = (if x = 0 then Some 3 else None)\<rparr>),
      allocated = [0, 1, 2, 3, 4], current_update = 7,
      time_slice = 1, population_size = 10, resources = ()\<rparr>"

text \<open>
  Populations for the scheduler: \<open>n\<close> individuals at the addresses below \<open>n\<close>, alive
  where \<open>live\<close> says so (an offspring born later at another address too), with the
  metadata \<open>ts\<close> and \<open>ps\<close>. Two effects of \<open>execute\<close>: none at all, and one where the
  first execution of individual 0 appends the offspring 5 and kills individual 1.
\<close>

definition scheduler_ea :: "nat \<Rightarrow> (ptr \<Rightarrow> bool) \<Rightarrow> 32 word \<Rightarrow> 32 word \<Rightarrow> nat ea" where
  "scheduler_ea n live ts ps =
     \<lparr>population = [0..<n],
      heap = (\<lambda>x. \<lparr>alive = live x, lod_parents = [], fixation_time = None\<rparr>),
      allocated = [0..<n], current_update = 0,
      time_slice = ts, population_size = ps, resources = 0\<rparr>"

definition no_effect :: "64 word \<Rightarrow> ptr \<Rightarrow> nat ea \<Rightarrow> nat ea" where
  "no_effect n p e = e"

definition birth_and_death :: "64 word \<Rightarrow> ptr \<Rightarrow> nat ea \<Rightarrow> nat ea" where
  "birth_and_death n p e =
     (if p = 0 \<and> 5 \<notin> set (population e)
      then e\<lparr>population := population e @ [5],
             heap := (heap e)(1 := (heap e 1)\<lparr>alive := False\<rparr>),
             allocated := allocated e @ [5]\<rparr>
      else e)"

section \<open>Properties of the lineage operations\<close>

subsection \<open>The loops of uniq and runiq\<close>

















subsection \<open>Endpoints and idempotence of the two deduplications\<close>









section \<open>Properties of the line of descent\<close>

subsection \<open>Chains of first parents\<close>

lemma lod_parent_rank:
  "acyclic_ancestry e rank \<Longrightarrow> has_parents (heap e x) \<Longrightarrow> rank (lod_parent (heap e x)) < rank x"
  by (cases "lod_parents (heap e x)") (auto simp: acyclic_ancestry_def has_parents_def lod_parent_def)

lemma lineage_loop_chain:
  assumes acyc: "acyclic_ancestry e rank"
  shows "first_parent_chain e (p # rest) \<Longrightarrow>
    \<exists>c. lineage_loop e p (p # rest) = Some (c @ p # rest)
       \<and> first_parent_chain e (c @ p # rest)
       \<and> \<not> has_parents (heap e (hd (c @ [p])))"
proof (induction "rank p" arbitrary: p rest rule: less_induct)
  case less
  show ?case
  proof (cases "has_parents (heap e p)")
    case False
    then have "lineage_loop e p (p # rest) = Some (p # rest)"
      by (subst lineage_loop.simps) (simp add: has_parents_def)
    with False less.prems show ?thesis by auto
  next
    case True
    let ?q = "lod_parent (heap e p)"
    have r: "rank ?q < rank p" using lod_parent_rank [OF acyc True] .
    have ch: "first_parent_chain e (?q # p # rest)" using True less.prems by simp
    from less.hyps [OF r ch] obtain c where
      c: "lineage_loop e ?q (?q # p # rest) = Some (c @ ?q # p # rest)"
         "first_parent_chain e (c @ ?q # p # rest)"
         "\<not> has_parents (heap e (hd (c @ [?q])))"
      by blast
    have "lineage_loop e p (p # rest) = lineage_loop e ?q (?q # p # rest)"
      using True by (subst lineage_loop.simps) (simp add: has_parents_def)
    with c have "lineage_loop e p (p # rest) = Some ((c @ [?q]) @ p # rest)
       \<and> first_parent_chain e ((c @ [?q]) @ p # rest)
       \<and> \<not> has_parents (heap e (hd ((c @ [?q]) @ [p])))"
      by (cases c) simp_all
    then show ?thesis by blast
  qed
qed

lemma lineage_chain:
  assumes "acyclic_ancestry e rank"
  shows "\<exists>l. lineage e p = Some l \<and> l \<noteq> [] \<and> last l = p
           \<and> \<not> has_parents (heap e (hd l)) \<and> first_parent_chain e l"
proof -
  have "first_parent_chain e (p # [])" by simp
  from lineage_loop_chain [OF assms this] obtain c where
    c: "lineage_loop e p [p] = Some (c @ [p])" "first_parent_chain e (c @ [p])"
       "\<not> has_parents (heap e (hd (c @ [p])))" by auto
  then show ?thesis by (auto simp: lineage_def)
qed

lemma chain_rank_less:
  assumes "acyclic_ancestry e rank"
  shows "first_parent_chain e (a # l) \<Longrightarrow> \<forall>x \<in> set l. rank a < rank x"
proof (induction l arbitrary: a)
  case Nil
  show ?case by simp
next
  case (Cons b l)
  then have hp: "has_parents (heap e b)" and a: "lod_parent (heap e b) = a"
    and ch: "first_parent_chain e (b # l)" by simp_all
  have ab: "rank a < rank b" using lod_parent_rank [OF assms hp] a by simp
  from Cons.IH [OF ch] ab show ?case by fastforce
qed

lemma chain_distinct:
  assumes "acyclic_ancestry e rank"
  shows "first_parent_chain e l \<Longrightarrow> distinct l"
proof (induction l)
  case Nil
  show ?case by simp
next
  case (Cons a l)
  have "first_parent_chain e l" using Cons.prems by (cases l) simp_all
  moreover have "a \<notin> set l" using chain_rank_less [OF assms Cons.prems] by auto
  ultimately show ?case using Cons.IH by simp
qed

lemma fixation_loop_keeps:
  "fixation_time (h x) = Some v \<Longrightarrow> fixation_time (fixation_loop t xs h x) = Some v"
proof (induction xs arbitrary: h)
  case Nil
  then show ?case by simp
next
  case (Cons a xs)
  show ?case
  proof (cases "fixation_time (h a) = None")
    case False
    with Cons.prems show ?thesis by auto
  next
    case True
    with Cons.prems have "x \<noteq> a" by auto
    then have "fixation_time ((h(a := (h a)\<lparr>fixation_time := Some t\<rparr>)) x) = Some v"
      using Cons.prems by simp
    then have "fixation_time
        (fixation_loop t xs (h(a := (h a)\<lparr>fixation_time := Some t\<rparr>)) x) = Some v"
      by (rule Cons.IH)
    with True show ?thesis by simp
  qed
qed

lemma fixation_loop_eq:
  "distinct xs \<Longrightarrow>
     fixation_loop t xs h =
       (\<lambda>x. if x \<in> set (takeWhile (\<lambda>y. fixation_time (h y) = None) xs)
            then (h x)\<lparr>fixation_time := Some t\<rparr> else h x)"
proof (induction xs arbitrary: h)
  case Nil
  show ?case by simp
next
  case (Cons a xs)
  show ?case
  proof (cases "fixation_time (h a) = None")
    case False
    then show ?thesis by (auto simp: fun_eq_iff)
  next
    case True
    let ?h = "h(a := (h a)\<lparr>fixation_time := Some t\<rparr>)"
    have "takeWhile (\<lambda>y. fixation_time (?h y) = None) xs
            = takeWhile (\<lambda>y. fixation_time (h y) = None) xs"
      using Cons.prems by (intro takeWhile_cong) auto
    moreover have "fixation_loop t xs ?h =
       (\<lambda>x. if x \<in> set (takeWhile (\<lambda>y. fixation_time (?h y) = None) xs)
            then (?h x)\<lparr>fixation_time := Some t\<rparr> else ?h x)"
    proof -
      have "distinct xs" using Cons.prems by simp
      from Cons.IH [OF this, of ?h] show ?thesis .
    qed
    moreover have "a \<notin> set (takeWhile (\<lambda>y. fixation_time (h y) = None) xs)"
      using Cons.prems by (auto dest: set_takeWhileD)
    ultimately show ?thesis using True by (auto simp: fun_eq_iff)
  qed
qed

lemma mrca_lineage_chain:
  "mrca_lineage e = Some (Inr lod) \<Longrightarrow> acyclic_ancestry e rank \<Longrightarrow> first_parent_chain e lod"
proof -
  assume m: "mrca_lineage e = Some (Inr lod)" and a: "acyclic_ancestry e rank"
  from m obtain x where "lineage e x = Some lod"
    by (auto simp: mrca_lineage_def split: option.splits sum.splits)
  with lineage_chain [OF a, of x] show ?thesis by auto
qed

subsection \<open>The MRCA resolver\<close>

text \<open>
  Claim C1 says that on every asexual ancestry tree \<open>mrca\<close> returns the most recent
  common ancestor of the population, the node of maximum share-count. On the tree of
  \<open>progenitor_ea\<close> every node has at most one parent and the lineages of the three
  members of the population meet in the progenitor 0 only, yet \<open>mrca\<close> returns
  individual 3, whose share-count is 1: the reference counts of 3, of its parent 1 and
  of the progenitor 0 are equal at both comparisons, so neither branch assigns \<open>m\<close>.
\<close>

theorem mrca_misses_progenitor:
  "mrca progenitor_ea = Some (Inr 3)
   \<and> map (\<lambda>x. lod_parents (heap progenitor_ea x)) [0, 1, 2, 3, 4] = [[], [0], [0], [1], [1]]
   \<and> map (lineage progenitor_ea) (population progenitor_ea)
       = [Some [0, 1, 3], Some [0, 1, 4], Some [0, 2]]
   \<and> share_count progenitor_ea 3 = 1
   \<and> share_count progenitor_ea 0 = 3"
  by code_simp

subsection \<open>Lineage extraction\<close>

text \<open>
  Claim C7 (as amended). Lineage extraction never fails on a node with several parents:
  at every node it follows the first element of the parent set. On an acyclic ancestry
  graph it returns a chain that ends in the given individual, begins at an individual
  without parents, and in which every element is the first parent of its successor.
\<close>

theorem lineage_follows_first_parent:
  assumes "acyclic_ancestry e rank"
  shows "\<exists>l. lineage e p = Some l \<and> l \<noteq> [] \<and> last l = p
           \<and> \<not> has_parents (heap e (hd l)) \<and> first_parent_chain e l"
  using lineage_chain [OF assms] .

text \<open>The amended claim at individual 2 of \<open>two_parents_ea\<close>, with the address as rank.\<close>

theorem lineage_follows_first_parent_witness:
  "acyclic_ancestry two_parents_ea id
   \<and> lineage two_parents_ea 2 = Some [0, 2]
   \<and> (\<exists>l. lineage two_parents_ea 2 = Some l \<and> l \<noteq> [] \<and> last l = 2
           \<and> \<not> has_parents (heap two_parents_ea (hd l)) \<and> first_parent_chain two_parents_ea l)"
proof -
  have a: "acyclic_ancestry two_parents_ea id"
    by (simp add: acyclic_ancestry_def two_parents_ea_def)
  have "lineage two_parents_ea 2 = Some [0, 2]" by code_simp
  with a lineage_follows_first_parent [OF a, of 2] show ?thesis by blast
qed

text \<open>
  Claim C7 as stated fails: individual 2 has the two parents 0 and 1, and its lineage
  is extracted without any failure, through parent 0.
\<close>

theorem lineage_multiple_parents_counterexample:
  "lod_parents (heap two_parents_ea 2) = [0, 1] \<and> lineage two_parents_ea 2 = Some [0, 2]"
  by code_simp

subsection \<open>The fixation tracker\<close>

text \<open>
  On an acyclic ancestry graph with a non-empty population \<open>mrca_lineage\<close> returns.
\<close>

lemma mrca_loop_returns:
  assumes "acyclic_ancestry e rank"
  shows "\<exists>r. mrca_loop e p m = Some r"
proof (induction "rank p" arbitrary: p m rule: less_induct)
  case less
  show ?case
  proof (cases "has_parents (heap e p)")
    case False
    then have "mrca_loop e p m = Some m" by (subst mrca_loop.simps) simp
    then show ?thesis by blast
  next
    case True
    let ?q = "lod_parent (heap e p)"
    have r: "rank ?q < rank p" using lod_parent_rank [OF assms True] .
    define m' where "m' = (if use_count e [p, ?q, m] ?q < use_count e [p, ?q, m] p then p
                      else if use_count e [p, ?q, m] ?q > use_count e [p, ?q, m] p then ?q
                      else m)"
    have "mrca_loop e p m = mrca_loop e ?q m'"
      using True by (subst mrca_loop.simps) (simp add: Let_def m'_def)
    with less.hyps [OF r, of m'] show ?thesis by simp
  qed
qed

lemma mrca_lineage_returns:
  assumes "acyclic_ancestry e rank" and "population e \<noteq> []"
  shows "\<exists>lod. mrca_lineage e = Some (Inr lod)"
proof -
  from mrca_loop_returns [OF assms(1)] obtain r where
    "mrca_loop e (hd (population e)) (hd (population e)) = Some r" by blast
  then have "mrca e = Some (Inr r)" using assms(2) by (simp add: mrca_def)
  moreover from lineage_chain [OF assms(1), of r] obtain l where "lineage e r = Some l" by blast
  ultimately show ?thesis by (simp add: mrca_lineage_def)
qed

text \<open>
  The walk of the tracker, over whatever lineage \<open>mrca_lineage\<close> returns: a fixation
  time that is set is never overwritten, and the individuals stamped with the current
  update are exactly those met walking the lineage backwards from its last node before
  the first individual that already has a fixation time. Nothing else changes.
\<close>

lemma fixation_walk:
  assumes "mrca_lineage e = Some (Inr lod)" and "acyclic_ancestry e rank"
  shows "\<exists>e'. track_fixation_events e = Some (Inr e')
           \<and> population e' = population e
           \<and> (\<forall>x v. fixation_time (heap e x) = Some v \<longrightarrow> fixation_time (heap e' x) = Some v)
           \<and> (\<forall>x. heap e' x =
                 (if x \<in> set (takeWhile (\<lambda>y. fixation_time (heap e y) = None) (rev lod))
                  then (heap e x)\<lparr>fixation_time := Some (current_update e)\<rparr>
                  else heap e x))"
proof -
  have "distinct lod"
    using chain_distinct [OF assms(2) mrca_lineage_chain [OF assms]] .
  then have "distinct (rev lod)" by simp
  then have eq: "\<forall>x. fixation_loop (current_update e) (rev lod) (heap e) x =
      (if x \<in> set (takeWhile (\<lambda>y. fixation_time (heap e y) = None) (rev lod))
       then (heap e x)\<lparr>fixation_time := Some (current_update e)\<rparr>
       else heap e x)"
    using fixation_loop_eq [of "rev lod" "current_update e" "heap e"] by simp
  let ?e' = "e\<lparr>heap := fixation_loop (current_update e) (rev lod) (heap e)\<rparr>"
  have "track_fixation_events e = Some (Inr ?e')"
    using assms(1) by (simp add: track_fixation_events_def)
  moreover have "population ?e' = population e" by simp
  moreover have "\<forall>x v. fixation_time (heap e x) = Some v
                   \<longrightarrow> fixation_time (heap ?e' x) = Some v"
    by (simp add: fixation_loop_keeps)
  moreover have "\<forall>x. heap ?e' x =
      (if x \<in> set (takeWhile (\<lambda>y. fixation_time (heap e y) = None) (rev lod))
       then (heap e x)\<lparr>fixation_time := Some (current_update e)\<rparr>
       else heap e x)"
    using eq by simp
  ultimately show ?thesis by blast
qed

text \<open>
  At \<open>fixation_ea\<close> the lineage returned is 0, 1, 2; individuals 2 and 1 are stamped with
  update 7 and individual 0 keeps its fixation time 3.
\<close>

lemma fixation_walk_example:
  "mrca_lineage fixation_ea = Some (Inr [0, 1, 2])
   \<and> acyclic_ancestry fixation_ea id
   \<and> (\<exists>e'. track_fixation_events fixation_ea = Some (Inr e')
         \<and> population e' = [3, 4]
         \<and> map (\<lambda>x. fixation_time (heap e' x)) [0, 1, 2, 3, 4]
             = [Some 3, Some 7, Some 7, None, None])"
proof -
  have m: "mrca_lineage fixation_ea = Some (Inr [0, 1, 2])" by code_simp
  have a: "acyclic_ancestry fixation_ea id"
    by (auto simp add: acyclic_ancestry_def fixation_ea_def)
  from fixation_walk [OF m a] obtain e' where
    e': "track_fixation_events fixation_ea = Some (Inr e')"
        "population e' = population fixation_ea"
        "\<forall>x. heap e' x =
           (if x \<in> set (takeWhile (\<lambda>y. fixation_time (heap fixation_ea y) = None) (rev [0, 1, 2]))
            then (heap fixation_ea x)\<lparr>fixation_time := Some (current_update fixation_ea)\<rparr>
            else heap fixation_ea x)"
    by blast
  have "map (\<lambda>x. fixation_time (heap e' x)) [0, 1, 2, 3, 4]
             = [Some 3, Some 7, Some 7, None, None]"
    using e'(3) by (simp add: fixation_ea_def)
  moreover have "population e' = [3, 4]" using e'(2) by (simp add: fixation_ea_def)
  ultimately have "\<exists>e'. track_fixation_events fixation_ea = Some (Inr e')
         \<and> population e' = [3, 4]
         \<and> map (\<lambda>x. fixation_time (heap e' x)) [0, 1, 2, 3, 4]
             = [Some 3, Some 7, Some 7, None, None]"
    using e'(1) by (intro exI [of _ e']) simp
  with m a show ?thesis by simp
qed

text \<open>
  Claim C8 says that the tracker walks the lineage of the most recent common ancestor and
  stamps the nodes of that lineage that have no fixation time. At \<open>progenitor_ea\<close> the
  most recent common ancestor is the progenitor 0 and no individual has a fixation time,
  but the lineage walked is 0, 1, 3, the lineage of the individual that \<open>mrca\<close> returns:
  update 7 is stamped on individuals 3 and 1 too, which lie on the lineages of one and
  of two of the three members of the population.
\<close>

theorem fixation_stamps_off_mrca_lineage:
  "mrca_lineage progenitor_ea = Some (Inr [0, 1, 3])
   \<and> map (share_count progenitor_ea) [0, 1, 2, 3, 4] = [3, 2, 1, 1, 1]
   \<and> map (\<lambda>x. fixation_time (heap progenitor_ea x)) [0, 1, 2, 3, 4] = [None, None, None, None, None]
   \<and> map_option (map_sum id (\<lambda>e'. map (\<lambda>x. fixation_time (heap e' x)) [0, 1, 2, 3, 4]))
        (track_fixation_events progenitor_ea)
       = Some (Inr [Some 7, Some 7, None, Some 7, None])"
  by code_simp

section \<open>Properties of the scheduler\<close>

subsection \<open>Arithmetic\<close>

lemma wrap_long_id: "- (2 ^ 63) \<le> k \<Longrightarrow> k < 2 ^ 63 \<Longrightarrow> wrap_long k = k"
  by (simp add: wrap_long_def)






subsection \<open>Invariants and termination of the loop\<close>

lemma wrr_loop_rule_aux:
  assumes "wrr_loop upd acc exec B npp N s = Some y"
  shows "(\<forall>s s'. I s \<longrightarrow> consumed s < B \<longrightarrow> deadcount s < N
            \<longrightarrow> wrr_body upd acc exec npp N s = Inr s' \<longrightarrow> I s') \<longrightarrow>
         I s \<longrightarrow> (\<forall>t. y = Inr t \<longrightarrow> I t \<and> \<not> (consumed t < B \<and> deadcount t < N))"
proof (rule wrr_loop.raw_induct
    [where P = "\<lambda>upd acc exec B npp N s y.
       (\<forall>s s'. I s \<longrightarrow> consumed s < B \<longrightarrow> deadcount s < N
            \<longrightarrow> wrr_body upd acc exec npp N s = Inr s' \<longrightarrow> I s') \<longrightarrow>
       I s \<longrightarrow> (\<forall>t. y = Inr t \<longrightarrow> I t \<and> \<not> (consumed t < B \<and> deadcount t < N))",
     OF _ assms])
  fix loop :: "('a \<Rightarrow> 'a) \<Rightarrow> (individual \<Rightarrow> 'a ea \<Rightarrow> 64 word) \<Rightarrow> (64 word \<Rightarrow> ptr \<Rightarrow> 'a ea \<Rightarrow> 'a ea)
     \<Rightarrow> int \<Rightarrow> int \<Rightarrow> nat \<Rightarrow> 'a wrr_state \<Rightarrow> (fault + 'a wrr_state) option"
  fix upd acc exec B npp N s y
  assume IH: "\<And>upd acc exec B npp N s y. loop upd acc exec B npp N s = Some y \<Longrightarrow>
       (\<forall>s s'. I s \<longrightarrow> consumed s < B \<longrightarrow> deadcount s < N
            \<longrightarrow> wrr_body upd acc exec npp N s = Inr s' \<longrightarrow> I s') \<longrightarrow>
       I s \<longrightarrow> (\<forall>t. y = Inr t \<longrightarrow> I t \<and> \<not> (consumed t < B \<and> deadcount t < N))"
  assume eq: "(if consumed s < B \<and> deadcount s < N
      then case wrr_body upd acc exec npp N s of Inl f \<Rightarrow> Some (Inl f)
           | Inr s' \<Rightarrow> loop upd acc exec B npp N s'
      else Some (Inr s)) = Some y"
  show "(\<forall>s s'. I s \<longrightarrow> consumed s < B \<longrightarrow> deadcount s < N
            \<longrightarrow> wrr_body upd acc exec npp N s = Inr s' \<longrightarrow> I s') \<longrightarrow>
       I s \<longrightarrow> (\<forall>t. y = Inr t \<longrightarrow> I t \<and> \<not> (consumed t < B \<and> deadcount t < N))"
  proof (intro impI allI)
    fix t
    assume step: "\<forall>s s'. I s \<longrightarrow> consumed s < B \<longrightarrow> deadcount s < N
            \<longrightarrow> wrr_body upd acc exec npp N s = Inr s' \<longrightarrow> I s'"
      and I: "I s" and y: "y = Inr t"
    show "I t \<and> \<not> (consumed t < B \<and> deadcount t < N)"
    proof (cases "consumed s < B \<and> deadcount s < N")
      case False
      with eq y I show ?thesis by auto
    next
      case True
      show ?thesis
      proof (cases "wrr_body upd acc exec npp N s")
        case (Inl f)
        with True eq y show ?thesis by auto
      next
        case (Inr s')
        with True eq have l: "loop upd acc exec B npp N s' = Some y" by simp
        have "I s'" using step I True Inr by blast
        with IH [OF l] step y show ?thesis by blast
      qed
    qed
  qed
qed

lemma wrr_loop_rule:
  assumes "wrr_loop upd acc exec B npp N s = Some (Inr t)"
    and "I s"
    and "\<And>s s'. I s \<Longrightarrow> consumed s < B \<Longrightarrow> deadcount s < N
           \<Longrightarrow> wrr_body upd acc exec npp N s = Inr s' \<Longrightarrow> I s'"
  shows "I t \<and> \<not> (consumed t < B \<and> deadcount t < N)"
  using wrr_loop_rule_aux [OF assms(1), of I] assms(2,3) by blast

lemma wrr_loop_returns:
  assumes "\<And>s s'. I s \<Longrightarrow> consumed s < B \<Longrightarrow> deadcount s < N
           \<Longrightarrow> wrr_body upd acc exec npp N s = Inr s' \<Longrightarrow> I s' \<and> m s' < (m s :: nat)"
    and "I s"
  shows "\<exists>r. wrr_loop upd acc exec B npp N s = Some r"
  using assms(2)
proof (induction "m s" arbitrary: s rule: less_induct)
  case less
  show ?case
  proof (cases "consumed s < B \<and> deadcount s < N")
    case False
    have "wrr_loop upd acc exec B npp N s = Some (Inr s)"
      by (subst wrr_loop.simps) (use False in auto)
    then show ?thesis by blast
  next
    case True
    show ?thesis
    proof (cases "wrr_body upd acc exec npp N s")
      case (Inl f)
      have "wrr_loop upd acc exec B npp N s = Some (Inl f)"
        by (subst wrr_loop.simps) (use True Inl in auto)
      then show ?thesis by blast
    next
      case (Inr s')
      have "I s' \<and> m s' < m s" using assms(1) [OF less.prems _ _ Inr] True by simp
      with less.hyps [of s'] obtain r where "wrr_loop upd acc exec B npp N s' = Some r"
        by blast
      moreover have "wrr_loop upd acc exec B npp N s = wrr_loop upd acc exec B npp N s'"
        by (subst wrr_loop.simps) (use True Inr in auto)
      ultimately show ?thesis by simp
    qed
  qed
qed

subsection \<open>What one iteration does\<close>


lemma wrr_body_cases:
  assumes "wrr_body upd acc exec npp N s = Inr s'"
  obtains (executed) ind e where
      "consumed s' = wrap_long (consumed s + uint (acc ind e))"
      "deadcount s' = deadcount s" "nexecuted s' = nexecuted s + 1"
    | (dead) "consumed s' = consumed s" "deadcount s' = deadcount s + 1"
      "nexecuted s' = nexecuted s"
proof -
  define s1 where "s1 =
     (if wrap_int (consumed s sdiv npp) \<noteq> last_period s
      then s\<lparr>world := (world s)\<lparr>resources := upd (resources (world s))\<rparr>,
             last_period := wrap_int (consumed s sdiv npp),
             updated := updated s @ [wrap_int (consumed s sdiv npp)]\<rparr>
      else s)"
  have s1: "consumed s1 = consumed s" "deadcount s1 = deadcount s" "nexecuted s1 = nexecuted s"
    by (simp_all add: s1_def)
  define p where "p = population (world s1) ! idx s1"
  show thesis
  proof (cases "alive (heap (world s1) p)")
    case True
    with assms have "s' = s1\<lparr>world := exec (acc (heap (world s1) p) (world s1)) p (world s1),
                   consumed := wrap_long (consumed s1 + uint (acc (heap (world s1) p) (world s1))),
                   nexecuted := nexecuted s1 + 1,
                   idx := (idx s1 + 1) mod N\<rparr>"
      unfolding wrr_body_def Let_def s1_def [symmetric] p_def [symmetric]
      by (simp split: if_splits)
    then show thesis using s1 by (intro executed [of "heap (world s1) p" "world s1"]) simp_all
  next
    case False
    with assms have "s' = s1\<lparr>deadcount := deadcount s1 + 1, idx := (idx s1 + 1) mod N\<rparr>"
      unfolding wrr_body_def Let_def s1_def [symmetric] p_def [symmetric]
      by (simp split: if_splits)
    then show thesis using s1 by (intro dead) simp_all
  qed
qed

subsection \<open>The budget\<close>

lemma is_shuffle_length: "is_shuffle f \<Longrightarrow> length (f xs) = length xs"
  by (metis is_shuffle_def mset_eq_length)

lemma is_shuffle_set: "is_shuffle f \<Longrightarrow> set (f xs) = set xs"
  by (metis is_shuffle_def mset_eq_setD)

lemma is_shuffle_rev: "is_shuffle rev"
  by (simp add: is_shuffle_def)

lemma is_shuffle_id: "is_shuffle id"
  by (simp add: is_shuffle_def)

text \<open>Reading a field of the state an update ends in.\<close>

lemma run_result:
  "map_option (map_sum id f) r = Some (Inr v) \<Longrightarrow> \<exists>s. r = Some (Inr s) \<and> f s = v"
  by (cases r; cases "the r") auto

lemma tick_budget_range: "0 \<le> tick_budget e" "tick_budget e < 2 ^ 32"
proof -
  show "0 \<le> tick_budget e" by (simp add: tick_budget_def)
  show "tick_budget e < 2 ^ 32"
    unfolding tick_budget_def Let_def
    using uint_bounded [of "time_slice e * min (word_of_nat (length (population e))) (population_size e)"]
    by simp
qed

lemma tick_budget_le:
  "tick_budget e \<le> uint (time_slice e) * min (int (length (population e))) (uint (population_size e))"
proof -
  let ?n = "of_nat (length (population e)) :: 32 word"
  let ?eff = "min ?n (population_size e)"
  have "uint (time_slice e * ?eff) = (uint (time_slice e) * uint ?eff) mod 2 ^ 32"
    by (simp add: uint_word_ariths)
  also have "\<dots> \<le> uint (time_slice e) * uint ?eff"
    by (rule zmod_le_nonneg_dividend) simp
  finally have 1: "tick_budget e \<le> uint (time_slice e) * uint ?eff"
    by (simp add: tick_budget_def)
  have "uint ?n = int (length (population e)) mod 2 ^ 32"
    by (simp add: uint_nat unat_of_nat zmod_int)
  also have "\<dots> \<le> int (length (population e))"
    by (rule zmod_le_nonneg_dividend) simp
  finally have n: "uint ?n \<le> int (length (population e))" .
  have "uint ?eff = min (uint ?n) (uint (population_size e))"
    by (simp add: min_def word_le_def)
  with n have "uint ?eff \<le> min (int (length (population e))) (uint (population_size e))"
    by simp
  then have "uint (time_slice e) * uint ?eff
       \<le> uint (time_slice e) * min (int (length (population e))) (uint (population_size e))"
    by (intro mult_left_mono) simp_all
  with 1 show ?thesis by linarith
qed

lemma tick_budget_shuffle:
  "is_shuffle f \<Longrightarrow> tick_budget (e\<lparr>population := f (population e)\<rparr>) = tick_budget e"
  by (simp add: tick_budget_def is_shuffle_length)

lemma wrr_loop_consumed_bound:
  assumes run: "wrr_loop upd acc exec B npp N s = Some (Inr t)"
    and q: "\<And>ind e'. uint (acc ind e') \<le> q" "1 \<le> q" "B + q \<le> 2 ^ 63"
    and init: "0 \<le> consumed s" "consumed s \<le> B + (q - 1)"
  shows "0 \<le> consumed t \<and> consumed t \<le> B + (q - 1)"
proof -
  have "(0 \<le> consumed t \<and> consumed t \<le> B + (q - 1))
          \<and> \<not> (consumed t < B \<and> deadcount t < N)"
  proof (rule wrr_loop_rule [OF run, where I = "\<lambda>s. 0 \<le> consumed s \<and> consumed s \<le> B + (q - 1)"])
    show "0 \<le> consumed s \<and> consumed s \<le> B + (q - 1)" using init by simp
  next
    fix s s'
    assume I: "0 \<le> consumed s \<and> consumed s \<le> B + (q - 1)" and g: "consumed s < B"
      and b: "wrr_body upd acc exec npp N s = Inr s'"
    from b show "0 \<le> consumed s' \<and> consumed s' \<le> B + (q - 1)"
    proof (cases rule: wrr_body_cases)
      case (executed ind e')
      have n: "0 \<le> uint (acc ind e')" "uint (acc ind e') \<le> q" using q(1) by simp_all
      then have "wrap_long (consumed s + uint (acc ind e')) = consumed s + uint (acc ind e')"
        using I g q(3) by (intro wrap_long_id) linarith+
      with executed n I g show ?thesis by simp
    next
      case dead
      with I show ?thesis by simp
    qed
  qed
  then show ?thesis by simp
qed

lemma fixed_priority_loop_returns:
  assumes "B \<le> 2 ^ 63 - 1" "- (2 ^ 63) \<le> consumed s"
  shows "\<exists>r. wrr_loop upd fixed_priority exec B npp N s = Some r"
proof (rule wrr_loop_returns
    [where I = "\<lambda>s. - (2 ^ 63) \<le> consumed s"
       and m = "\<lambda>s. nat (B - consumed s) + (N - deadcount s)"])
  show "- (2 ^ 63) \<le> consumed s" by fact
next
  fix s s' :: "'a wrr_state"
  assume I: "- (2 ^ 63) \<le> consumed s" and g: "consumed s < B" "deadcount s < N"
    and b: "wrr_body upd fixed_priority exec npp N s = Inr s'"
  from b show "- (2 ^ 63) \<le> consumed s'
      \<and> nat (B - consumed s') + (N - deadcount s') < nat (B - consumed s) + (N - deadcount s)"
  proof (cases rule: wrr_body_cases)
    case (executed ind e')
    have "wrap_long (consumed s + 1) = consumed s + 1"
      using I g assms(1) by (intro wrap_long_id) linarith+
    with executed I g show ?thesis by (simp add: fixed_priority_def)
  next
    case dead
    with I g show ?thesis by simp
  qed
qed

lemma fixed_priority_returns:
  "\<exists>r. wrr_run shuffle upd fixed_priority exec npp e = Some r"
  unfolding wrr_run_def Let_def
  using tick_budget_range (2) [of "e\<lparr>population := shuffle (population e)\<rparr>"]
  by (intro fixed_priority_loop_returns) simp_all

subsection \<open>Cycles consumed in one update\<close>

text \<open>
  Claim C2 (as amended). When every quantum that the priority accessor returns is at
  most \<open>q\<close> (with \<open>q\<close> at least 1, and at most \<open>2^62\<close>, so that the 64-bit
  counter \<open>consumed\<close> does not wrap), the cycles consumed by an update are at most
  \<open>time_slice * min(N, max_population_size) + (q - 1)\<close>: the loop grants a whole quantum
  while \<open>consumed\<close> is below the budget, so the last quantum can pass it. With the
  fixed-priority accessor \<open>q\<close> is 1 and the bound is the claim's.
\<close>

theorem consumed_within_budget:
  assumes "is_shuffle shuffle"
    and "\<And>ind e'. uint (acc ind e') \<le> q" and "1 \<le> q" and "q \<le> 2 ^ 62"
    and "wrr_run shuffle upd acc exec npp e = Some (Inr s)"
  shows "0 \<le> consumed s
       \<and> consumed s \<le> uint (time_slice e) * min (int (length (population e))) (uint (population_size e))
                        + (q - 1)"
proof -
  let ?e1 = "e\<lparr>population := shuffle (population e)\<rparr>"
  have B: "tick_budget ?e1 = tick_budget e" using assms(1) by (rule tick_budget_shuffle)
  have r: "tick_budget e < 2 ^ 32" "0 \<le> tick_budget e" using tick_budget_range by auto
  have "0 \<le> consumed s \<and> consumed s \<le> tick_budget e + (q - 1)"
  proof (rule wrr_loop_consumed_bound [OF _ assms(2,3)])
    show "wrr_loop upd acc exec (tick_budget e) npp (length (population ?e1))
            \<lparr>world = ?e1, consumed = 0, last_period = - 1, idx = 0, deadcount = 0,
             updated = [], nexecuted = 0\<rparr> = Some (Inr s)"
      using assms(5) B by (simp add: wrr_run_def Let_def)
    show "tick_budget e + q \<le> 2 ^ 63" using r assms(4) by simp
  qed (use r assms(3) in simp_all)
  with tick_budget_le [of e] show ?thesis by linarith
qed


text \<open>
  The amended claim at the spec's scenario: four individuals, fixed priority,
  \<open>time_slice = 10\<close>, \<open>max_population_size = 4\<close> and a period of 8 cycles. The update
  consumes 40 cycles.
\<close>

theorem consumed_within_budget_witness:
  "is_shuffle rev \<and> (\<forall>ind (e' :: nat ea). uint (fixed_priority ind e') \<le> 1)
   \<and> (\<exists>s. wrr_run rev Suc fixed_priority no_effect 8 (scheduler_ea 4 (\<lambda>_. True) 10 4)
             = Some (Inr s)
          \<and> consumed s = 40
          \<and> 0 \<le> consumed s
          \<and> consumed s \<le> uint (time_slice (scheduler_ea 4 (\<lambda>_. True) 10 4))
               * min (int (length (population (scheduler_ea 4 (\<lambda>_. True) 10 4))))
                   (uint (population_size (scheduler_ea 4 (\<lambda>_. True) 10 4))) + (1 - 1))"
proof -
  let ?e = "scheduler_ea 4 (\<lambda>_. True) 10 4"
  let ?run = "wrr_run rev Suc fixed_priority no_effect 8 ?e"
  have q: "\<And>ind (e' :: nat ea). uint (fixed_priority ind e') \<le> 1"
    by (simp add: fixed_priority_def)
  have "map_option (map_sum id consumed) ?run = Some (Inr 40)"
    by code_simp
  from run_result [OF this] obtain s where s: "?run = Some (Inr s)" "consumed s = 40"
    by (elim exE conjE)
  have b: "0 \<le> consumed s
       \<and> consumed s \<le> uint (time_slice ?e)
               * min (int (length (population ?e))) (uint (population_size ?e)) + (1 - 1)"
    by (rule consumed_within_budget [OF is_shuffle_rev q _ _ s(1)]) simp_all
  have "\<exists>s. ?run = Some (Inr s) \<and> consumed s = 40 \<and> 0 \<le> consumed s
       \<and> consumed s \<le> uint (time_slice ?e)
               * min (int (length (population ?e))) (uint (population_size ?e)) + (1 - 1)"
    using s b by (intro exI [of _ s] conjI) (elim conjE, assumption)+
  with is_shuffle_rev q show ?thesis by (intro conjI allI) assumption+
qed

text \<open>
  Claim C2 as stated fails for an accessor that returns the quantum 3: with one
  individual and \<open>time_slice = 10\<close> the update consumes 12 cycles, and the bound is 10.
\<close>

theorem consumed_exceeds_budget_counterexample:
  "map_option (map_sum id consumed)
     (wrr_run id Suc (\<lambda>ind e. 3) no_effect 2 (scheduler_ea 1 (\<lambda>p. True) 10 1))
     = Some (Inr 12)
   \<and> uint (time_slice (scheduler_ea 1 (\<lambda>p. True) 10 1))
       * min (int (length (population (scheduler_ea 1 (\<lambda>p. True) 10 1))))
           (uint (population_size (scheduler_ea 1 (\<lambda>p. True) 10 1))) = 10"
  by code_simp

subsection \<open>Resource updates\<close>









subsection \<open>The rebuilt population\<close>

lemma next_loop_eq:
  "next_loop e i nxt = nxt @ filter (\<lambda>p. alive (heap e p)) (drop i (population e))"
proof (induction e i nxt rule: next_loop.induct)
  case (1 e i nxt)
  show ?case
  proof (cases "i < length (population e)")
    case False
    then show ?thesis by (subst next_loop.simps) simp
  next
    case True
    let ?p = "population e ! i"
    have d: "drop i (population e) = ?p # drop (i + 1) (population e)"
      using True by (simp add: Cons_nth_drop_Suc)
    have "next_loop e i nxt
        = next_loop e (i + 1) (if alive (heap e ?p) then nxt @ [?p] else nxt)"
      using True by (subst next_loop.simps) (simp add: Let_def)
    also have "\<dots> = (if alive (heap e ?p) then nxt @ [?p] else nxt)
          @ filter (\<lambda>p. alive (heap e p)) (drop (i + 1) (population e))"
      using True by (intro "1.IH") simp_all
    finally show ?thesis using d by simp
  qed
qed

text \<open>
  Claim C4. When the loop of an update ends, the update returns, and the population it
  installs is the population as the loop left it (offspring appended during the update
  included), filtered by liveness: the living individuals in their order, and no dead
  one.
\<close>

theorem population_rebuilt:
  assumes "wrr_run shuffle upd acc exec npp e = Some (Inr s)"
  shows "\<exists>e'. weighted_round_robin shuffle upd acc exec npp e = Some (Inr e')
           \<and> population e' = filter (\<lambda>p. alive (heap (world s) p)) (population (world s))
           \<and> heap e' = heap (world s)
           \<and> (\<forall>p \<in> set (population e'). alive (heap e' p))
           \<and> (\<forall>p \<in> set (population (world s)). \<not> alive (heap (world s) p) \<longrightarrow> p \<notin> set (population e'))"
  using assms by (simp add: weighted_round_robin_def next_loop_eq)


text \<open>
  Claim C4 at an update of three individuals during which individual 0 bears the
  offspring 5 and individual 1 dies: the loop leaves the population 2, 1, 0, 5 and the
  update installs 2, 0, 5.
\<close>

theorem population_rebuilt_witness:
  "\<exists>s e'. wrr_run rev Suc fixed_priority birth_and_death 2 (scheduler_ea 3 (\<lambda>_. True) 2 3)
             = Some (Inr s)
        \<and> population (world s) = [2, 1, 0, 5]
        \<and> map (\<lambda>p. alive (heap (world s) p)) (population (world s)) = [True, False, True, True]
        \<and> weighted_round_robin rev Suc fixed_priority birth_and_death 2
             (scheduler_ea 3 (\<lambda>_. True) 2 3) = Some (Inr e')
        \<and> population e' = [2, 0, 5]"
proof -
  let ?e = "scheduler_ea 3 (\<lambda>_. True) 2 3"
  let ?run = "wrr_run rev Suc fixed_priority birth_and_death 2 ?e"
  have "map_option (map_sum id (\<lambda>s. (population (world s),
            map (\<lambda>p. alive (heap (world s) p)) (population (world s))))) ?run
        = Some (Inr ([2, 1, 0, 5], [True, False, True, True]))"
    by code_simp
  from run_result [OF this] obtain s where s: "?run = Some (Inr s)"
    and pr: "(population (world s), map (\<lambda>p. alive (heap (world s) p)) (population (world s)))
       = ([2, 1, 0, 5], [True, False, True, True])"
    by (elim exE conjE)
  from pr have pw: "population (world s) = [2, 1, 0, 5]"
    by (rule Pair_inject)
  from pr have al: "map (\<lambda>p. alive (heap (world s) p)) (population (world s))
                      = [True, False, True, True]"
    by (rule Pair_inject)
  from population_rebuilt [OF s] obtain e' where
    e': "weighted_round_robin rev Suc fixed_priority birth_and_death 2 ?e = Some (Inr e')"
        "population e' = filter (\<lambda>p. alive (heap (world s) p)) (population (world s))"
    by (elim exE conjE)
  have "filter (\<lambda>p. alive (heap (world s) p)) (population (world s)) = [2, 0, 5]"
    using al unfolding pw by simp
  with e'(2) have "population e' = [2, 0, 5]" by simp
  with s pw al e'(1) show ?thesis by (intro exI [of _ s] exI [of _ e'] conjI) assumption+
qed

subsection \<open>Updates of a dead population\<close>

lemma all_dead_loop:
  assumes B: "0 < B" and npp: "npp \<noteq> 0"
  shows "\<forall>p \<in> set (population (world s)). \<not> alive (heap (world s) p) \<Longrightarrow>
    length (population (world s)) = N \<Longrightarrow> consumed s = 0 \<Longrightarrow> last_period s = 0 \<Longrightarrow>
    deadcount s \<le> N \<Longrightarrow> (deadcount s < N \<longrightarrow> idx s = deadcount s) \<Longrightarrow>
    \<exists>t. wrr_loop upd acc exec B npp N s = Some (Inr t) \<and> consumed t = 0
       \<and> updated t = updated s \<and> nexecuted t = nexecuted s \<and> deadcount t = N
       \<and> world t = world s"
proof (induction "N - deadcount s" arbitrary: s)
  case 0
  then have "wrr_loop upd acc exec B npp N s = Some (Inr s)"
    by (subst wrr_loop.simps) simp
  with 0 show ?case by simp
next
  case (Suc k)
  then have lt: "deadcount s < N" and i: "idx s = deadcount s" by auto
  let ?p = "population (world s) ! idx s"
  have "?p \<in> set (population (world s))" using lt i Suc.prems(2) by simp
  then have dead: "\<not> alive (heap (world s) ?p)" using Suc.prems(1) by blast
  have w0: "wrap_int 0 = 0" by (simp add: wrap_int_def)
  let ?s' = "s\<lparr>deadcount := deadcount s + 1, idx := (idx s + 1) mod N\<rparr>"
  have body: "wrr_body upd acc exec npp N s = Inr ?s'"
    using npp dead lt i Suc.prems(2,3,4) w0 by (simp add: wrr_body_def Let_def)
  have step: "wrr_loop upd acc exec B npp N s = wrr_loop upd acc exec B npp N ?s'"
    using B lt Suc.prems(3) body by (subst wrr_loop.simps) simp
  have "\<exists>t. wrr_loop upd acc exec B npp N ?s' = Some (Inr t) \<and> consumed t = 0
       \<and> updated t = updated ?s' \<and> nexecuted t = nexecuted ?s' \<and> deadcount t = N
       \<and> world t = world ?s'"
  proof (rule Suc.hyps(1))
    show "k = N - deadcount ?s'" using Suc.hyps(2) by simp
    show "deadcount ?s' < N \<longrightarrow> idx ?s' = deadcount ?s'" using i by simp
  qed (use Suc.prems lt in simp_all)
  with step show ?case by simp
qed

lemma all_dead_run:
  assumes sh: "is_shuffle shuffle" and ne: "population e \<noteq> []"
    and dead: "\<forall>p \<in> set (population e). \<not> alive (heap e p)"
    and npp: "npp \<noteq> 0" and B: "0 < tick_budget e"
  shows "\<exists>s. wrr_run shuffle upd acc exec npp e = Some (Inr s)
           \<and> consumed s = 0 \<and> nexecuted s = 0 \<and> updated s = [0]
           \<and> deadcount s = length (population e)
           \<and> world s = e\<lparr>population := shuffle (population e), resources := upd (resources e)\<rparr>"
proof -
  let ?e1 = "e\<lparr>population := shuffle (population e)\<rparr>"
  let ?N = "length (population ?e1)"
  let ?s0 = "\<lparr>world = ?e1, consumed = 0, last_period = - 1, idx = 0, deadcount = 0,
             updated = [], nexecuted = 0\<rparr>"
  have N: "?N = length (population e)" using sh by (simp add: is_shuffle_length)
  then have N0: "0 < ?N" using ne by simp
  have Bq: "tick_budget ?e1 = tick_budget e" using sh by (rule tick_budget_shuffle)
  have d1: "\<forall>p \<in> set (population ?e1). \<not> alive (heap ?e1 p)"
    using dead sh by (simp add: is_shuffle_set)
  have "population ?e1 ! 0 \<in> set (population ?e1)" using N0 by (intro nth_mem) simp
  then have d0: "\<not> alive (heap ?e1 (population ?e1 ! 0))" using d1 by blast
  have w0: "wrap_int 0 = 0" by (simp add: wrap_int_def)
  let ?s1 = "\<lparr>world = ?e1\<lparr>resources := upd (resources ?e1)\<rparr>, consumed = 0, last_period = 0,
             idx = 1 mod ?N, deadcount = 1, updated = [0], nexecuted = 0\<rparr>"
  have body: "wrr_body upd acc exec npp ?N ?s0 = Inr ?s1"
    using npp d0 N0 w0 by (simp add: wrr_body_def Let_def)
  have step: "wrr_loop upd acc exec (tick_budget e) npp ?N ?s0
               = wrr_loop upd acc exec (tick_budget e) npp ?N ?s1"
    using B N0 body by (subst wrr_loop.simps) simp
  have "\<exists>t. wrr_loop upd acc exec (tick_budget e) npp ?N ?s1 = Some (Inr t) \<and> consumed t = 0
       \<and> updated t = updated ?s1 \<and> nexecuted t = nexecuted ?s1 \<and> deadcount t = ?N
       \<and> world t = world ?s1"
  proof (rule all_dead_loop [OF B npp])
    show "\<forall>p \<in> set (population (world ?s1)). \<not> alive (heap (world ?s1) p)"
      using d1 by simp
    show "deadcount ?s1 \<le> ?N" using N0 by (cases "shuffle (population e)") simp_all
    show "deadcount ?s1 < ?N \<longrightarrow> idx ?s1 = deadcount ?s1" by simp
  qed simp_all
  then obtain t where t: "wrr_loop upd acc exec (tick_budget e) npp ?N ?s1 = Some (Inr t)"
    and f: "consumed t = 0" "updated t = [0]" "nexecuted t = 0" "deadcount t = ?N"
      "world t = ?e1\<lparr>resources := upd (resources ?e1)\<rparr>"
    by auto
  have "wrr_run shuffle upd acc exec npp e
          = wrr_loop upd acc exec (tick_budget e) npp ?N ?s0"
    by (simp add: wrr_run_def Let_def Bq)
  also note step
  also note t
  finally have "wrr_run shuffle upd acc exec npp e = Some (Inr t)" .
  moreover have "world t = e\<lparr>population := shuffle (population e), resources := upd (resources e)\<rparr>"
    using f(5) by simp
  ultimately show ?thesis using f(1-4) N by (intro exI [of _ t]) simp
qed

text \<open>
  Claim C10. On a non-empty population whose individuals are all dead, with a non-zero
  period length (which, being the truncation of \<open>budget * delta_t\<close> with \<open>delta_t\<close> at
  most 1, is at most the budget), the update returns after one call of the resource
  pool's update, for period 0; nothing is executed and no cycle is consumed.
\<close>

theorem all_dead_single_update:
  assumes "is_shuffle shuffle" and "population e \<noteq> []"
    and "\<forall>p \<in> set (population e). \<not> alive (heap e p)"
    and "0 < npp" and "npp \<le> tick_budget e"
  shows "\<exists>s. wrr_run shuffle upd acc exec npp e = Some (Inr s)
           \<and> updated s = [0] \<and> consumed s = 0 \<and> nexecuted s = 0
           \<and> resources (world s) = upd (resources e)"
proof -
  have "npp \<noteq> 0" "0 < tick_budget e" using assms(4,5) by auto
  from all_dead_run [OF assms(1,2,3) this, of upd acc exec] show ?thesis by auto
qed


text \<open>Claim C10 at three dead individuals, a budget of 30 and a period length of 2.\<close>

theorem all_dead_single_update_witness:
  "is_shuffle rev \<and> population (scheduler_ea 3 (\<lambda>_. False) 10 3) \<noteq> []
   \<and> map (\<lambda>p. alive (heap (scheduler_ea 3 (\<lambda>_. False) 10 3) p))
        (population (scheduler_ea 3 (\<lambda>_. False) 10 3)) = [False, False, False]
   \<and> (2::int) \<le> tick_budget (scheduler_ea 3 (\<lambda>_. False) 10 3)
   \<and> (\<exists>s. wrr_run rev Suc fixed_priority no_effect 2 (scheduler_ea 3 (\<lambda>_. False) 10 3)
             = Some (Inr s)
          \<and> updated s = [0] \<and> consumed s = 0 \<and> nexecuted s = 0
          \<and> resources (world s) = Suc (resources (scheduler_ea 3 (\<lambda>_. False) 10 3)))"
proof -
  have ne: "population (scheduler_ea 3 (\<lambda>_. False) 10 3) \<noteq> []" by code_simp
  have d: "\<forall>p \<in> set (population (scheduler_ea 3 (\<lambda>_. False) 10 3)).
             \<not> alive (heap (scheduler_ea 3 (\<lambda>_. False) 10 3) p)"
    by (simp add: scheduler_ea_def)
  have m: "map (\<lambda>p. alive (heap (scheduler_ea 3 (\<lambda>_. False) 10 3) p))
        (population (scheduler_ea 3 (\<lambda>_. False) 10 3)) = [False, False, False]"
    by code_simp
  have p: "(0::int) < 2" by simp
  have b: "(2::int) \<le> tick_budget (scheduler_ea 3 (\<lambda>_. False) 10 3)" by code_simp
  from all_dead_single_update [OF is_shuffle_rev ne d p b, of Suc fixed_priority no_effect]
    is_shuffle_rev ne m b
  show ?thesis by blast
qed

subsection \<open>A period length of zero\<close>

lemma zero_period_faults:
  assumes "0 < tick_budget (e\<lparr>population := shuffle (population e)\<rparr>)"
  shows "weighted_round_robin shuffle upd acc exec 0 e = Some (Inl DivideByZero)"
proof -
  let ?e1 = "e\<lparr>population := shuffle (population e)\<rparr>"
  have "0 < length (population ?e1)"
    using assms by (cases "shuffle (population e)") (simp_all add: tick_budget_def)
  then show ?thesis using assms
    by (simp add: weighted_round_robin_def wrr_run_def Let_def wrr_loop.simps [of _ _ _ _ 0]
          wrr_body_def)
qed

text \<open>
  Claim C6 says that a configuration with a zero period length fails with a
  configuration error before the loop. With \<open>time_slice = 1\<close>, three individuals and
  \<open>resource_slice = 5\<close> the budget is 3 and \<open>ncycles_per_period\<close> is 0; there is no
  check, the loop is entered and its first iteration divides by zero.
\<close>

theorem zero_period_divides_by_zero:
  "tick_budget (scheduler_ea 3 (\<lambda>p. True) 1 3) = 3
   \<and> weighted_round_robin id Suc fixed_priority no_effect 0 (scheduler_ea 3 (\<lambda>p. True) 1 3)
       = Some (Inl DivideByZero)"
proof -
  have b: "tick_budget (scheduler_ea 3 (\<lambda>p. True) 1 3) = 3" by code_simp
  then have "0 < tick_budget ((scheduler_ea 3 (\<lambda>p. True) 1 3)
                \<lparr>population := id (population (scheduler_ea 3 (\<lambda>p. True) 1 3))\<rparr>)"
    by simp
  from zero_period_faults [of id "scheduler_ea 3 (\<lambda>p. True) 1 3", OF this] b
  show ?thesis by simp
qed

text \<open>
  Claim C9 says that an update of a non-empty population whose individuals are all dead
  consumes nothing and ends at once. With the configuration above it does not end
  normally: the first iteration divides by zero (for a non-zero period length and a
  positive budget the update does end, see \<open>all_dead_run\<close>).
\<close>

theorem all_dead_zero_period_faults:
  "map (\<lambda>p. alive (heap (scheduler_ea 3 (\<lambda>p. False) 1 3) p))
        (population (scheduler_ea 3 (\<lambda>p. False) 1 3)) = [False, False, False]
   \<and> weighted_round_robin id Suc fixed_priority no_effect 0 (scheduler_ea 3 (\<lambda>p. False) 1 3)
       = Some (Inl DivideByZero)"
proof -
  have b: "tick_budget (scheduler_ea 3 (\<lambda>p. False) 1 3) = 3" by code_simp
  then have "0 < tick_budget ((scheduler_ea 3 (\<lambda>p. False) 1 3)
                \<lparr>population := id (population (scheduler_ea 3 (\<lambda>p. False) 1 3))\<rparr>)"
    by simp
  moreover have "map (\<lambda>p. alive (heap (scheduler_ea 3 (\<lambda>p. False) 1 3) p))
        (population (scheduler_ea 3 (\<lambda>p. False) 1 3)) = [False, False, False]"
    by code_simp
  ultimately show ?thesis
    using zero_period_faults [of id "scheduler_ea 3 (\<lambda>p. False) 1 3"] by blast
qed

end
